theory Spec2Isabelle
  imports Main
begin

section \<open>The dialog component (\<open>mdui-dialog\<close>)\<close>

text \<open>
  The class \<open>Dialog\<close> of \<open>src/packages/components/src/button/index.ts\<close> is embedded
  as functions on an explicit state. Its asynchronous method \<open>onOpenChange\<close> is cut at
  every \<open>await\<close>: the code up to the first \<open>await\<close> is the function \<open>run\<close>, the code
  after each \<open>await\<close> is one equation of \<open>continue\<close>. A suspended invocation is a
  program counter (\<open>pc\<close>) kept with its dialog; the host's event loop is the list of
  labels given to \<open>step\<close>.
\<close>

type_synonym dialog_id = nat
type_synonym anim_id = nat

text \<open>Objects that can have focus or that \<open>originalTrigger\<close> may hold: the panel of
  a dialog (an element of the dialog's shadow tree), the dialog element itself (the
  host of that tree), any other element, or an object whose \<open>focus\<close> is not a
  function.\<close>

datatype element = Panel dialog_id | Host dialog_id | Elem nat | NoFocusFn nat

fun has_focus_fn :: "element \<Rightarrow> bool" where
  "has_focus_fn (NoFocusFn _) = False"
| "has_focus_fn _ = True"

text \<open>The parts of the page that can be made inert: the content outside every
  overlay, and each overlay.\<close>

datatype content = PageContent | Overlay dialog_id

datatype event_name = EvOpen | EvOpened | EvClose | EvClosed | EvOverlayClick

text \<open>\<open>this.style.display\<close>: never assigned, \<open>'flex'\<close> or \<open>'none'\<close>.\<close>

datatype display_value = DisplayUnset | DisplayFlex | DisplayNone

datatype anim = OpenAnim | CloseAnim

text \<open>The places at which an invocation of \<open>onOpenChange\<close> is suspended.\<close>

datatype pc =
    AwaitUpdateComplete
  | OpenAwaitStop
  | OpenAwaitAnimate anim_id
  | CloseAwaitStop
  | CloseAwaitAnimate anim_id

record dialog =
  open_flag :: bool
  closeOnEsc :: bool
  closeOnOverlayClick :: bool
  hasUpdated :: bool
  keydownListeners :: nat
  topAppBarElements :: nat
  scrollTargetSet :: bool
  display :: display_value
  originalTrigger :: "element option"
  autofocusTarget :: "element option"
  animations :: "(anim_id \<times> anim) list"
  nextAnim :: anim_id
  runs :: "pc list"

text \<open>
  \<open>activeElement\<close> is the element that has focus, the panel of a dialog included;
  what \<open>document.activeElement\<close> reports for it is \<open>documentActiveElement\<close> below.
  \<open>focusable\<close> says which elements a call of \<open>focus\<close> can move focus to at this
  moment (an element that is detached, hidden or not focusable cannot take it).
\<close>

record state =
  dialogs :: "dialog_id \<Rightarrow> dialog"
  activeElement :: "element option"
  focusable :: "element \<Rightarrow> bool"
  inertContent :: "content set"
  lockCount :: int
  lockOwners :: "dialog_id set"
  activeModals :: "dialog_id list"
  frameCallbacks :: "dialog_id list"
  timeouts :: "element list"
  events :: "(dialog_id \<times> event_name) list"

definition upd :: "dialog_id \<Rightarrow> (dialog \<Rightarrow> dialog) \<Rightarrow> state \<Rightarrow> state" where
  "upd d f s = s\<lparr>dialogs := (dialogs s)(d := f (dialogs s d))\<rparr>"

subsection \<open>Helpers imported by the component\<close>

text \<open>
  Modelled from the spec: \<open>emit\<close> of \<open>@mdui/shared/helpers/event.js\<close> is not in the
  sources. The notification is appended to the log of emitted events; whether a handler
  calls \<open>preventDefault\<close> on a cancelable notification is an input of the caller.
\<close>

definition emit :: "dialog_id \<Rightarrow> event_name \<Rightarrow> state \<Rightarrow> state" where
  "emit d e s = s\<lparr>events := events s @ [(d, e)]\<rparr>"

text \<open>
  Modelled from the spec: \<open>lockScreen\<close> and \<open>unlockScreen\<close> of
  \<open>@mdui/shared/helpers/scroll.js\<close> are not in the sources. The spec gives a process-wide
  integer counter and, for every overlay context, a boolean "owns a scroll-lock unit":
  \<open>lockScreen\<close> hands the source its unit and increments the counter, \<open>unlockScreen\<close>
  takes the unit back and decrements the counter; a source that owns no unit has
  nothing to give back.
\<close>

definition lockScreen :: "dialog_id \<Rightarrow> state \<Rightarrow> state" where
  "lockScreen d s =
     (if d \<in> lockOwners s then s
      else s\<lparr>lockCount := lockCount s + 1, lockOwners := insert d (lockOwners s)\<rparr>)"

definition unlockScreen :: "dialog_id \<Rightarrow> state \<Rightarrow> state" where
  "unlockScreen d s =
     (if d \<in> lockOwners s
      then s\<lparr>lockCount := lockCount s - 1, lockOwners := lockOwners s - {d}\<rparr>
      else s)"

text \<open>
  Modelled from the spec: the class \<open>Modal\<close> of \<open>@mdui/shared/helpers/modal.js\<close> is not
  in the sources. \<open>activate\<close> pushes the overlay context onto the stack of active
  overlays (the topmost is the last) and applies the inert/aria state to the content
  outside the new topmost context; \<open>deactivate\<close> takes the context off the stack and
  restores the inert/aria state of what is no longer obscured. While an overlay is
  active, the content outside every overlay and the overlays below the topmost one are
  inert; with no overlay active nothing is.
\<close>

definition obscured :: "dialog_id list \<Rightarrow> content set" where
  "obscured stack =
     (if stack = [] then {}
      else insert PageContent (Overlay ` (set stack - {last stack})))"

definition activate :: "dialog_id \<Rightarrow> state \<Rightarrow> state" where
  "activate d s =
     s\<lparr>activeModals := activeModals s @ [d],
       inertContent := obscured (activeModals s @ [d])\<rparr>"

definition deactivate :: "dialog_id \<Rightarrow> state \<Rightarrow> state" where
  "deactivate d s =
     s\<lparr>activeModals := removeAll d (activeModals s),
       inertContent := obscured (removeAll d (activeModals s))\<rparr>"

text \<open>
  Modelled from the spec: \<open>animateTo\<close> and \<open>stopAnimations\<close> of
  \<open>@mdui/shared/helpers/animate.js\<close> are not in the sources. \<open>animateTo\<close> starts an
  animation on the elements of the dialog; its promise settles when the animation has
  finished or has been cancelled. \<open>stopAnimations\<close> cancels every animation running on
  them. The overlay, the panel and the children are animated and stopped together, so
  one entry stands for the group that one \<open>Promise.all\<close> starts.
\<close>

definition animateTo :: "dialog_id \<Rightarrow> anim \<Rightarrow> state \<Rightarrow> state" where
  "animateTo d a s =
     upd d (\<lambda>x. x\<lparr>animations := animations x @ [(nextAnim x, a)],
                    nextAnim := Suc (nextAnim x)\<rparr>) s"

definition stopAnimations :: "dialog_id \<Rightarrow> state \<Rightarrow> state" where
  "stopAnimations d s = upd d (\<lambda>x. x\<lparr>animations := []\<rparr>) s"

text \<open>
  \<open>element.focus()\<close> of the platform. Focus moves to the element only if the call can
  be made and the element can take focus at this moment; otherwise nothing changes (a
  call on a detached or non-focusable element does nothing, a call of something that
  is not a function throws and changes nothing either).
\<close>

definition takes_focus :: "state \<Rightarrow> element \<Rightarrow> bool" where
  "takes_focus s e \<longleftrightarrow> has_focus_fn e \<and> focusable s e"

definition focus :: "element \<Rightarrow> state \<Rightarrow> state" where
  "focus e s = (if takes_focus s e then s\<lparr>activeElement := Some e\<rparr> else s)"

text \<open>
  \<open>document.activeElement\<close>: for an element inside the shadow tree of a dialog the
  document reports the host of the tree, the dialog element.
\<close>

fun host_of :: "element \<Rightarrow> element" where
  "host_of (Panel d) = Host d"
| "host_of e = e"

definition documentActiveElement :: "state \<Rightarrow> element option" where
  "documentActiveElement s = map_option host_of (activeElement s)"

text \<open>\<open>suspend\<close> records that an invocation waits at an \<open>await\<close>.\<close>

definition suspend :: "dialog_id \<Rightarrow> pc \<Rightarrow> state \<Rightarrow> state" where
  "suspend d p s = upd d (\<lambda>x. x\<lparr>runs := runs x @ [p]\<rparr>) s"

subsection \<open>\<open>onOpenChange\<close>\<close>

text \<open>
  The inner function \<open>run\<close> up to its first \<open>await\<close>. \<open>prevented\<close> says whether a
  handler of the cancelable notification (\<open>open\<close> or \<open>close\<close>) calls \<open>preventDefault\<close>.
\<close>

definition run :: "dialog_id \<Rightarrow> bool \<Rightarrow> state \<Rightarrow> state" where
  "run d prevented s =
     (if open_flag (dialogs s d) then
        (let s1 = emit d EvOpen s in
         if prevented then s1
         else
           let s2 = (if topAppBarElements (dialogs s1 d) \<noteq> 0
                     then upd d (\<lambda>x. x\<lparr>scrollTargetSet := True\<rparr>) s1 else s1);
               s3 = upd d (\<lambda>x. x\<lparr>display := DisplayFlex\<rparr>) s2;
               s4 = upd d (\<lambda>x. x\<lparr>originalTrigger := documentActiveElement s3\<rparr>) s3;
               s5 = activate d s4;
               s6 = lockScreen d s5;
               s7 = stopAnimations d s6
           in suspend d OpenAwaitStop s7)
      else if hasUpdated (dialogs s d) then
        (let s1 = emit d EvClose s in
         if prevented then s1
         else
           let s2 = deactivate d s1;
               s3 = stopAnimations d s2
           in suspend d CloseAwaitStop s3)
      else s)"

text \<open>The code after each \<open>await\<close>.\<close>

fun continue :: "dialog_id \<Rightarrow> pc \<Rightarrow> bool \<Rightarrow> state \<Rightarrow> state" where
  "continue d AwaitUpdateComplete prevented s = run d prevented s"
| "continue d OpenAwaitStop prevented s =
     (let s1 = s\<lparr>frameCallbacks := frameCallbacks s @ [d]\<rparr>;
          a = nextAnim (dialogs s1 d);
          s2 = animateTo d OpenAnim s1
      in suspend d (OpenAwaitAnimate a) s2)"
| "continue d (OpenAwaitAnimate a) prevented s = emit d EvOpened s"
| "continue d CloseAwaitStop prevented s =
     (let a = nextAnim (dialogs s d);
          s1 = animateTo d CloseAnim s
      in suspend d (CloseAwaitAnimate a) s1)"
| "continue d (CloseAwaitAnimate a) prevented s =
     (let s1 = upd d (\<lambda>x. x\<lparr>display := DisplayNone\<rparr>) s;
          s2 = unlockScreen d s1;
          s3 = (case originalTrigger (dialogs s2 d) of
                  None \<Rightarrow> s2
                | Some trigger \<Rightarrow>
                    if has_focus_fn trigger
                    then s2\<lparr>timeouts := timeouts s2 @ [trigger]\<rparr> else s2)
      in emit d EvClosed s3)"

text \<open>The promise a suspended invocation waits for has settled.\<close>

fun settled :: "dialog \<Rightarrow> pc \<Rightarrow> bool" where
  "settled x AwaitUpdateComplete = hasUpdated x"
| "settled x OpenAwaitStop = True"
| "settled x (OpenAwaitAnimate a) = (a \<notin> fst ` set (animations x))"
| "settled x CloseAwaitStop = True"
| "settled x (CloseAwaitAnimate a) = (a \<notin> fst ` set (animations x))"

definition resume :: "dialog_id \<Rightarrow> pc \<Rightarrow> bool \<Rightarrow> state \<Rightarrow> state" where
  "resume d p prevented s =
     (if p \<in> set (runs (dialogs s d)) \<and> settled (dialogs s d) p
      then continue d p prevented (upd d (\<lambda>x. x\<lparr>runs := remove1 p (runs x)\<rparr>) s)
      else s)"

definition onOpenChange :: "dialog_id \<Rightarrow> bool \<Rightarrow> state \<Rightarrow> state" where
  "onOpenChange d prevented s =
     (if \<not> hasUpdated (dialogs s d) then suspend d AwaitUpdateComplete s
      else run d prevented s)"

text \<open>
  Modelled from the spec: the decorator \<open>watch\<close> of \<open>@mdui/shared/decorators/watch.js\<close>
  is not in the sources. Setting the open intent triggers the transition: an assignment
  that changes the reactive property \<open>open\<close> calls \<open>onOpenChange\<close>; before the first
  update the assignment only stores the value.
\<close>

definition set_open :: "dialog_id \<Rightarrow> bool \<Rightarrow> bool \<Rightarrow> state \<Rightarrow> state" where
  "set_open d v prevented s =
     (if open_flag (dialogs s d) = v then s
      else
        let s1 = upd d (\<lambda>x. x\<lparr>open_flag := v\<rparr>) s
        in if hasUpdated (dialogs s1 d) then onOpenChange d prevented s1 else s1)"

text \<open>The first update of the element; \<open>watched\<close> says whether it reports \<open>open\<close> as
  changed, in which case \<open>onOpenChange\<close> is called while \<open>hasUpdated\<close> is still false
  and waits for \<open>updateComplete\<close>.\<close>

definition firstUpdate :: "dialog_id \<Rightarrow> bool \<Rightarrow> state \<Rightarrow> state" where
  "firstUpdate d watched s =
     (if hasUpdated (dialogs s d) then s
      else
        let s1 = (if watched then onOpenChange d False s else s)
        in upd d (\<lambda>x. x\<lparr>hasUpdated := True\<rparr>) s1)"

subsection \<open>Callbacks and listeners\<close>

definition connectedCallback :: "dialog_id \<Rightarrow> state \<Rightarrow> state" where
  "connectedCallback d s = upd d (\<lambda>x. x\<lparr>keydownListeners := Suc (keydownListeners x)\<rparr>) s"

definition disconnectedCallback :: "dialog_id \<Rightarrow> state \<Rightarrow> state" where
  "disconnectedCallback d s = unlockScreen d s"

definition onOverlayClick :: "dialog_id \<Rightarrow> bool \<Rightarrow> state \<Rightarrow> state" where
  "onOverlayClick d prevented s =
     (let s1 = emit d EvOverlayClick s in
      if \<not> closeOnOverlayClick (dialogs s1 d) then s1
      else set_open d False prevented s1)"

text \<open>The listener installed by \<open>connectedCallback\<close>: does it take the key event?\<close>

definition handlesKey :: "state \<Rightarrow> string \<Rightarrow> dialog_id \<Rightarrow> bool" where
  "handlesKey s key d \<longleftrightarrow>
     0 < keydownListeners (dialogs s d) \<and> open_flag (dialogs s d) \<and>
     closeOnEsc (dialogs s d) \<and> key = ''Escape''"

text \<open>
  A \<open>keydown\<close> event bubbling along \<open>path\<close>, the dialogs from the event's target
  outwards. A listener that takes the event calls \<open>stopPropagation\<close>, so the dialogs
  further out are not reached. (A second copy of the listener on the same dialog then
  finds \<open>open\<close> false and does nothing.)
\<close>

fun dispatchKeydown :: "dialog_id list \<Rightarrow> string \<Rightarrow> bool \<Rightarrow> state \<Rightarrow> state" where
  "dispatchKeydown [] key prevented s = s"
| "dispatchKeydown (d # ds) key prevented s =
     (if handlesKey s key d then set_open d False prevented s
      else dispatchKeydown ds key prevented s)"

text \<open>The callbacks passed to \<open>requestAnimationFrame\<close> and to \<open>setTimeout\<close>.\<close>

definition focusCallback :: "dialog_id \<Rightarrow> state \<Rightarrow> state" where
  "focusCallback d s =
     (case autofocusTarget (dialogs s d) of
        Some autoFocusTarget \<Rightarrow> focus autoFocusTarget s
      | None \<Rightarrow> focus (Panel d) s)"

definition animationFrame :: "state \<Rightarrow> state" where
  "animationFrame s = fold focusCallback (frameCallbacks s) (s\<lparr>frameCallbacks := []\<rparr>)"

definition timeoutFire :: "state \<Rightarrow> state" where
  "timeoutFire s =
     (case timeouts s of
        [] \<Rightarrow> s
      | trigger # rest \<Rightarrow> focus trigger (s\<lparr>timeouts := rest\<rparr>))"

definition animationFinish :: "dialog_id \<Rightarrow> anim_id \<Rightarrow> state \<Rightarrow> state" where
  "animationFinish d a s =
     upd d (\<lambda>x. x\<lparr>animations := filter (\<lambda>e. fst e \<noteq> a) (animations x)\<rparr>) s"

subsection \<open>The event loop\<close>

text \<open>The last label is the page making an element able or unable to take focus
  (attaching, detaching, showing, hiding, enabling or disabling it).\<close>

datatype label =
    SetOpen dialog_id bool bool
  | FirstUpdate dialog_id bool
  | Resume dialog_id pc bool
  | AnimationFinish dialog_id anim_id
  | AnimationFrame
  | TimeoutFire
  | KeyDown "dialog_id list" string bool
  | OverlayClick dialog_id bool
  | Connected dialog_id
  | Disconnected dialog_id
  | SetFocusable element bool

fun step :: "state \<Rightarrow> label \<Rightarrow> state" where
  "step s (SetOpen d v prevented) = set_open d v prevented s"
| "step s (FirstUpdate d watched) = firstUpdate d watched s"
| "step s (Resume d p prevented) = resume d p prevented s"
| "step s (AnimationFinish d a) = animationFinish d a s"
| "step s AnimationFrame = animationFrame s"
| "step s TimeoutFire = timeoutFire s"
| "step s (KeyDown path key prevented) = dispatchKeydown path key prevented s"
| "step s (OverlayClick d prevented) = onOverlayClick d prevented s"
| "step s (Connected d) = connectedCallback d s"
| "step s (Disconnected d) = disconnectedCallback d s"
| "step s (SetFocusable e b) = s\<lparr>focusable := (focusable s)(e := b)\<rparr>"

definition exec :: "label list \<Rightarrow> state \<Rightarrow> state" where
  "exec ls s = foldl step s ls"

text \<open>A page on which every dialog has the given settings and nothing has happened.\<close>

definition new_dialog :: "bool \<Rightarrow> bool \<Rightarrow> element option \<Rightarrow> dialog" where
  "new_dialog esc overlay autofocus =
     \<lparr>open_flag = False, closeOnEsc = esc, closeOnOverlayClick = overlay,
      hasUpdated = False, keydownListeners = 0, topAppBarElements = 0,
      scrollTargetSet = False, display = DisplayUnset, originalTrigger = None,
      autofocusTarget = autofocus, animations = [], nextAnim = 0, runs = []\<rparr>"

text \<open>At first panels (which carry \<open>tabindex\<close>) and plain elements can take focus, a
  dialog element itself cannot.\<close>

fun focusable_at_first :: "element \<Rightarrow> bool" where
  "focusable_at_first (Panel _) = True"
| "focusable_at_first (Elem _) = True"
| "focusable_at_first (Host _) = False"
| "focusable_at_first (NoFocusFn _) = False"

definition initial :: "(dialog_id \<Rightarrow> dialog) \<Rightarrow> element option \<Rightarrow> state" where
  "initial ds focused =
     \<lparr>dialogs = ds, activeElement = focused, focusable = focusable_at_first,
      inertContent = {}, lockCount = 0, lockOwners = {},
      activeModals = [], frameCallbacks = [], timeouts = [], events = []\<rparr>"

subsection \<open>The states of an overlay\<close>

datatype overlay_state = Inactive | Opening | Active | Closing

fun opening_pc :: "pc \<Rightarrow> bool" where
  "opening_pc OpenAwaitStop = True"
| "opening_pc (OpenAwaitAnimate _) = True"
| "opening_pc _ = False"

fun closing_pc :: "pc \<Rightarrow> bool" where
  "closing_pc CloseAwaitStop = True"
| "closing_pc (CloseAwaitAnimate _) = True"
| "closing_pc _ = False"

text \<open>
  The code keeps no state variable; the state of the spec is read off the dialog: a
  transition is in flight while an invocation of \<open>onOpenChange\<close> is suspended in the
  branch that performs it, otherwise the dialog is active exactly when it is displayed.
\<close>

definition overlay_state_of :: "dialog \<Rightarrow> overlay_state" where
  "overlay_state_of x =
     (if list_ex closing_pc (runs x) then Closing
      else if list_ex opening_pc (runs x) then Opening
      else if display x = DisplayFlex then Active
      else Inactive)"


text \<open>The elements for which the close branch calls \<open>setTimeout(() => trigger.focus())\<close>.\<close>

definition restoreTargets :: "dialog \<Rightarrow> element list" where
  "restoreTargets x =
     (case originalTrigger x of
        None \<Rightarrow> []
      | Some trigger \<Rightarrow> if has_focus_fn trigger then [trigger] else [])"

text \<open>
  The scroll lock is consistent: the counter is the number of units handed out, and
  only a displayed dialog holds one.
\<close>

definition lock_inv :: "state \<Rightarrow> bool" where
  "lock_inv s \<longleftrightarrow>
     finite (lockOwners s) \<and> lockCount s = int (card (lockOwners s)) \<and>
     (\<forall>d \<in> lockOwners s. display (dialogs s d) = DisplayFlex)"

text \<open>The states an execution passes through, and the ways one more event can fall
  among a list of events.\<close>

fun states_along :: "label list \<Rightarrow> state \<Rightarrow> state list" where
  "states_along [] s = [s]"
| "states_along (l # ls) s = s # states_along ls (step s l)"

fun insert_everywhere :: "'a \<Rightarrow> 'a list \<Rightarrow> 'a list list" where
  "insert_everywhere x [] = [[x]]"
| "insert_everywhere x (y # ys) = (x # y # ys) # map ((#) y) (insert_everywhere x ys)"

subsection \<open>A page with two dialogs\<close>

definition page :: state where
  "page = initial (\<lambda>_. new_dialog True True None) (Some (Elem 7))"

definition rendered :: state where
  "rendered = exec [Connected 0, Connected 1, FirstUpdate 0 False, FirstUpdate 1 False] page"

definition animating :: state where
  "animating = exec [SetOpen 0 True False, Resume 0 OpenAwaitStop False, AnimationFrame] rendered"

definition shown :: state where
  "shown = exec [AnimationFinish 0 0, Resume 0 (OpenAwaitAnimate 0) False] animating"

definition stacked :: state where
  "stacked = exec [SetOpen 1 True False, Resume 1 OpenAwaitStop False] shown"

definition hidden :: state where
  "hidden = exec
     [SetOpen 0 False False, Resume 0 CloseAwaitStop False, AnimationFinish 0 1,
      Resume 0 (CloseAwaitAnimate 1) False] shown"

definition both_shown :: state where
  "both_shown = exec
     [AnimationFrame, AnimationFinish 1 0, Resume 1 (OpenAwaitAnimate 0) False] stacked"

section \<open>The declarative trigger \<open>data-md-dialog\<close>\<close>

text \<open>
  The click handler of \<open>src/unnamed/part_000\<close>. A page holds the Node Data Store, the
  controllers constructed so far (a controller is known by its index) and the calls of
  \<open>open\<close> made on them.
\<close>

type_synonym node = nat
type_synonym options = "(string \<times> string) list"

record controller =
  element_of :: node
  options_of :: options

record page_data =
  dataStore :: "node \<Rightarrow> string \<rightharpoonup> nat"
  controllers :: "controller list"
  openCalls :: "nat list"

definition empty_page :: page_data where
  "empty_page = \<lparr>dataStore = (\<lambda>_. Map.empty), controllers = [], openCalls = []\<rparr>"

text \<open>
  Modelled from the spec: \<open>$.getData\<close> and \<open>$.setData\<close> are not in the sources. The
  store maps a node's identity to a mapping from string keys to values; a key never
  written reads as \<open>undefined\<close> (\<open>None\<close>).
\<close>

definition getData :: "page_data \<Rightarrow> node \<Rightarrow> string \<Rightarrow> nat option" where
  "getData pg n key = dataStore pg n key"

definition setData :: "node \<Rightarrow> string \<Rightarrow> nat \<Rightarrow> page_data \<Rightarrow> page_data" where
  "setData n key v pg = pg\<lparr>dataStore := (dataStore pg)(n := (dataStore pg n)(key \<mapsto> v))\<rparr>"

text \<open>
  Modelled from the spec: the constructor \<open>mdui.Dialog\<close> and its method \<open>open\<close> are not
  in the sources. Constructing allocates a new controller for the node; \<open>open\<close> is
  recorded as a call on that controller.
\<close>

definition newDialog :: "node \<Rightarrow> options \<Rightarrow> page_data \<Rightarrow> nat \<times> page_data" where
  "newDialog n opts pg =
     (length (controllers pg),
      pg\<lparr>controllers := controllers pg @ [\<lparr>element_of = n, options_of = opts\<rparr>]\<rparr>)"

definition openDialog :: "nat \<Rightarrow> page_data \<Rightarrow> page_data" where
  "openDialog inst pg = pg\<lparr>openCalls := openCalls pg @ [inst]\<rparr>"

text \<open>
  \<open>$.dom(selector)[0]\<close> for the \<open>target\<close> of the parsed options. \<open>$.parseOptions\<close> and
  \<open>$.dom\<close> are not in the sources and are parameters. When the options have no
  \<open>target\<close> or no node matches it, the handler goes on with \<open>undefined\<close> into code that
  is not in the sources: the result is \<open>None\<close>, and nothing is stated about that case.
\<close>

definition target_node ::
  "(string \<Rightarrow> options) \<Rightarrow> (string \<Rightarrow> node list) \<Rightarrow> string \<Rightarrow> node option" where
  "target_node parseOptions dom_nodes attr =
     (case map_of (parseOptions attr) ''target'' of
        None \<Rightarrow> None
      | Some selector \<Rightarrow> (case dom_nodes selector of [] \<Rightarrow> None | dialog # _ \<Rightarrow> Some dialog))"

definition dialogClick ::
  "(string \<Rightarrow> options) \<Rightarrow> (string \<Rightarrow> node list) \<Rightarrow> string \<Rightarrow> page_data \<Rightarrow> page_data option"
  where
  "dialogClick parseOptions dom_nodes attr pg =
     (let options = parseOptions attr;
          options' = filter (\<lambda>e. fst e \<noteq> ''target'') options
      in case target_node parseOptions dom_nodes attr of
           None \<Rightarrow> None
         | Some dialog \<Rightarrow>
             (case getData pg dialog ''mdui.dialog'' of
                Some inst \<Rightarrow> Some (openDialog inst pg)
              | None \<Rightarrow>
                  let (inst, pg1) = newDialog dialog options' pg;
                      pg2 = setData dialog ''mdui.dialog'' inst pg1
                  in Some (openDialog inst pg2)))"

fun clicks ::
  "(string \<Rightarrow> options) \<Rightarrow> (string \<Rightarrow> node list) \<Rightarrow> string list \<Rightarrow> page_data \<Rightarrow> page_data option"
  where
  "clicks parseOptions dom_nodes [] pg = Some pg"
| "clicks parseOptions dom_nodes (attr # attrs) pg =
     (case dialogClick parseOptions dom_nodes attr pg of
        None \<Rightarrow> None
      | Some pg' \<Rightarrow> clicks parseOptions dom_nodes attrs pg')"

text \<open>The store and the controllers agree: a node's entry is the controller built for it.\<close>

definition store_inv :: "page_data \<Rightarrow> bool" where
  "store_inv pg \<longleftrightarrow>
     (\<forall>n i. dataStore pg n ''mdui.dialog'' = Some i \<longleftrightarrow>
            i < length (controllers pg) \<and> element_of (controllers pg ! i) = n)"

text \<open>A toy page for the handler: the attribute is the selector itself.\<close>

definition toy_parse :: "string \<Rightarrow> options" where
  "toy_parse attr = [(''target'', attr), (''modal'', ''true'')]"

definition toy_dom :: "string \<Rightarrow> node list" where
  "toy_dom selector = (if selector = ''#a'' then [1] else if selector = ''#b'' then [2, 3] else [])"

section \<open>Plugin registration (\<open>$.fn.extend\<close>)\<close>













section \<open>Properties of the dialog\<close>

lemmas prim_defs = upd_def emit_def lockScreen_def unlockScreen_def activate_def deactivate_def
  animateTo_def stopAnimations_def focus_def takes_focus_def documentActiveElement_def
  suspend_def

lemmas exec_defs = exec_def initial_def new_dialog_def set_open_def onOpenChange_def run_def
  resume_def firstUpdate_def connectedCallback_def disconnectedCallback_def animationFrame_def
  animationFinish_def timeoutFire_def focusCallback_def onOverlayClick_def handlesKey_def
  overlay_state_of_def prim_defs Let_def

lemmas page_defs = page_def rendered_def animating_def shown_def stacked_def hidden_def
  both_shown_def

lemma open_flag_run: "open_flag (dialogs (run d p s) d') = open_flag (dialogs s d')"
  by (simp add: run_def prim_defs Let_def)

lemma run_others: "d' \<noteq> d \<Longrightarrow> dialogs (run d p s) d' = dialogs s d'"
  by (simp add: run_def prim_defs Let_def)

lemma set_open_others: "d' \<noteq> d \<Longrightarrow> dialogs (set_open d v p s) d' = dialogs s d'"
  by (simp add: set_open_def onOpenChange_def run_others Let_def) (simp add: prim_defs)

lemma open_flag_set_open: "open_flag (dialogs (set_open d v p s) d) = v"
  by (simp add: set_open_def onOpenChange_def open_flag_run Let_def) (simp add: prim_defs)

lemma events_set_open_prefix: "\<exists>es. events (set_open d v p s) = events s @ es"
  by (simp add: set_open_def onOpenChange_def run_def prim_defs Let_def)

lemma overlay_state_of_runs:
  "runs x = [] \<Longrightarrow> overlay_state_of x = (if display x = DisplayFlex then Active else Inactive)"
  "runs x = [OpenAwaitStop] \<Longrightarrow> overlay_state_of x = Opening"
  "runs x = [OpenAwaitAnimate a] \<Longrightarrow> overlay_state_of x = Opening"
  "runs x = [CloseAwaitStop] \<Longrightarrow> overlay_state_of x = Closing"
  "runs x = [CloseAwaitAnimate a] \<Longrightarrow> overlay_state_of x = Closing"
  by (simp_all add: overlay_state_of_def)

subsection \<open>A prevented \<open>open\<close>\<close>

text \<open>
  C1. On a dialog that is inactive, setting the open intent while a handler calls
  \<open>preventDefault\<close> on the \<open>open\<close> notification changes nothing but the property and the
  log of notifications: the dialog is still inactive, the scroll-lock counter and its
  owners are as before, no focus is moved and none is scheduled (no frame callback, no
  timer), no animation is started on any dialog, the stack of overlays and the display
  are untouched. The same holds when \<open>run\<close> is reached after the first render.
\<close>

theorem open_prevented_no_side_effects:
  assumes "overlay_state_of (dialogs s d) = Inactive"
    and "hasUpdated (dialogs s d)"
    and "\<not> open_flag (dialogs s d)"
    and "s' = step s (SetOpen d True True)"
  shows "overlay_state_of (dialogs s' d) = Inactive \<and>
         lockCount s' = lockCount s \<and>
         lockOwners s' = lockOwners s \<and>
         activeModals s' = activeModals s \<and>
         activeElement s' = activeElement s \<and>
         frameCallbacks s' = frameCallbacks s \<and>
         timeouts s' = timeouts s \<and>
         (\<forall>d'. animations (dialogs s' d') = animations (dialogs s d')) \<and>
         (\<forall>d'. display (dialogs s' d') = display (dialogs s d')) \<and>
         (\<forall>d'. runs (dialogs s' d') = runs (dialogs s d')) \<and>
         events s' = events s @ [(d, EvOpen)] \<and>
         s' = emit d EvOpen (upd d (\<lambda>x. x\<lparr>open_flag := True\<rparr>) s) \<and>
         (\<forall>s0. open_flag (dialogs s0 d) \<longrightarrow> run d True s0 = emit d EvOpen s0)"
proof -
  have eq: "s' = emit d EvOpen (upd d (\<lambda>x. x\<lparr>open_flag := True\<rparr>) s)"
    using assms(2,3,4) by (simp add: set_open_def onOpenChange_def run_def prim_defs Let_def)
  have st: "overlay_state_of (dialogs s' d) = overlay_state_of (dialogs s d)"
    unfolding eq by (simp add: overlay_state_of_def prim_defs)
  have run: "\<forall>s0. open_flag (dialogs s0 d) \<longrightarrow> run d True s0 = emit d EvOpen s0"
    by (simp add: run_def Let_def)
  have rest: "lockCount s' = lockCount s \<and> lockOwners s' = lockOwners s \<and>
      activeModals s' = activeModals s \<and> activeElement s' = activeElement s \<and>
      frameCallbacks s' = frameCallbacks s \<and> timeouts s' = timeouts s \<and>
      (\<forall>d'. animations (dialogs s' d') = animations (dialogs s d')) \<and>
      (\<forall>d'. display (dialogs s' d') = display (dialogs s d')) \<and>
      (\<forall>d'. runs (dialogs s' d') = runs (dialogs s d')) \<and>
      events s' = events s @ [(d, EvOpen)]"
    unfolding eq by (simp add: prim_defs)
  from st assms(1) rest eq run show ?thesis by simp
qed

theorem open_prevented_witness:
  "overlay_state_of (dialogs rendered 0) = Inactive \<and>
   hasUpdated (dialogs rendered 0) \<and>
   \<not> open_flag (dialogs rendered 0) \<and>
   overlay_state_of (dialogs (step rendered (SetOpen 0 True True)) 0) = Inactive \<and>
   lockCount (step rendered (SetOpen 0 True True)) = 0 \<and>
   activeElement (step rendered (SetOpen 0 True True)) = Some (Elem 7) \<and>
   frameCallbacks (step rendered (SetOpen 0 True True)) = [] \<and>
   animations (dialogs (step rendered (SetOpen 0 True True)) 0) = [] \<and>
   events (step rendered (SetOpen 0 True True)) = [(0, EvOpen)]"
proof -
  have h: "overlay_state_of (dialogs rendered 0) = Inactive" "hasUpdated (dialogs rendered 0)"
    "\<not> open_flag (dialogs rendered 0)"
    by (simp_all add: page_defs exec_defs)
  have v: "lockCount rendered = 0" "activeElement rendered = Some (Elem 7)"
    "frameCallbacks rendered = []" "animations (dialogs rendered 0) = []" "events rendered = []"
    by (simp_all add: page_defs exec_defs)
  let ?s' = "step rendered (SetOpen 0 True True)"
  from open_prevented_no_side_effects[OF h refl]
  have c: "overlay_state_of (dialogs ?s' 0) = Inactive \<and>
      lockCount ?s' = lockCount rendered \<and>
      activeElement ?s' = activeElement rendered \<and>
      frameCallbacks ?s' = frameCallbacks rendered \<and>
      animations (dialogs ?s' 0) = animations (dialogs rendered 0) \<and>
      events ?s' = events rendered @ [(0, EvOpen)]"
    by blast
  from c h v show ?thesis by simp
qed

subsection \<open>A click on the overlay\<close>

text \<open>
  C10. A click on the overlay always emits \<open>overlay-click\<close>, whether or not
  close-on-overlay-click is enabled. The close intent (\<open>open\<close> set to false) is issued
  exactly when close-on-overlay-click is enabled: afterwards \<open>open\<close> is true iff it was
  true and the option is disabled. When the option is disabled the click leaves the
  whole state as it was, but for the logged notification.
\<close>

theorem overlay_click_emits_and_closes_iff_enabled:
  assumes "s' = step s (OverlayClick d prevented)"
  shows "(\<exists>es. events s' = events s @ (d, EvOverlayClick) # es) \<and>
         (open_flag (dialogs s' d) \<longleftrightarrow>
            open_flag (dialogs s d) \<and> \<not> closeOnOverlayClick (dialogs s d)) \<and>
         (closeOnOverlayClick (dialogs s d) \<longrightarrow>
            s' = set_open d False prevented (emit d EvOverlayClick s)) \<and>
         (\<not> closeOnOverlayClick (dialogs s d) \<longrightarrow>
            s' = s\<lparr>events := events s @ [(d, EvOverlayClick)]\<rparr> \<and>
            dialogs s' = dialogs s)"
proof (cases "closeOnOverlayClick (dialogs s d)")
  case True
  then have eq: "s' = set_open d False prevented (emit d EvOverlayClick s)"
    using assms by (simp add: onOverlayClick_def Let_def emit_def)
  from events_set_open_prefix[of d False prevented "emit d EvOverlayClick s"]
  have "\<exists>es. events s' = events s @ (d, EvOverlayClick) # es"
    unfolding eq by (auto simp: emit_def)
  moreover have "\<not> open_flag (dialogs s' d)"
    unfolding eq by (simp add: open_flag_set_open)
  ultimately show ?thesis using True eq by simp
next
  case False
  then have "s' = s\<lparr>events := events s @ [(d, EvOverlayClick)]\<rparr>"
    using assms by (simp add: onOverlayClick_def Let_def emit_def)
  with False show ?thesis by simp
qed

theorem overlay_click_witness:
  "closeOnOverlayClick (dialogs shown 0) \<and>
   events (step shown (OverlayClick 0 False)) =
     events shown @ [(0, EvOverlayClick), (0, EvClose)] \<and>
   \<not> open_flag (dialogs (step shown (OverlayClick 0 False)) 0) \<and>
   \<not> closeOnOverlayClick (dialogs (upd 0 (\<lambda>x. x\<lparr>closeOnOverlayClick := False\<rparr>) shown) 0) \<and>
   open_flag (dialogs (step (upd 0 (\<lambda>x. x\<lparr>closeOnOverlayClick := False\<rparr>) shown)
                         (OverlayClick 0 False)) 0) \<and>
   events (step (upd 0 (\<lambda>x. x\<lparr>closeOnOverlayClick := False\<rparr>) shown) (OverlayClick 0 False)) =
     events shown @ [(0, EvOverlayClick)]"
proof -
  have h: "closeOnOverlayClick (dialogs shown 0)" "open_flag (dialogs shown 0)"
    "hasUpdated (dialogs shown 0)"
    by (simp_all add: page_defs exec_defs)
  have on: "events (step shown (OverlayClick 0 False)) =
      events shown @ [(0, EvOverlayClick), (0, EvClose)]"
    using h by (simp add: onOverlayClick_def set_open_def onOpenChange_def run_def prim_defs Let_def)
  let ?off = "upd 0 (\<lambda>x. x\<lparr>closeOnOverlayClick := False\<rparr>) shown"
  have off: "\<not> closeOnOverlayClick (dialogs ?off 0)" "open_flag (dialogs ?off 0)"
    "events ?off = events shown"
    using h by (simp_all add: upd_def)
  from overlay_click_emits_and_closes_iff_enabled[OF refl, of shown 0 False] h
  have c1: "\<not> open_flag (dialogs (step shown (OverlayClick 0 False)) 0)"
    by blast
  from overlay_click_emits_and_closes_iff_enabled[OF refl, of ?off 0 False] off(1,2)
  have c2: "open_flag (dialogs (step ?off (OverlayClick 0 False)) 0) \<and>
      step ?off (OverlayClick 0 False) = ?off\<lparr>events := events ?off @ [(0, EvOverlayClick)]\<rparr>"
    by blast
  then have c3: "events (step ?off (OverlayClick 0 False)) = events shown @ [(0, EvOverlayClick)]"
    using off(3) by simp
  from h(1) on c1 off(1) c2 c3 show ?thesis by blast
qed

subsection \<open>The scroll lock\<close>

lemma lock_inv_upd:
  "(\<And>x. display (f x) = display x) \<Longrightarrow> lock_inv (upd d f s) = lock_inv s"
  by (auto simp: lock_inv_def upd_def)

lemma lock_inv_unlockScreen: "lock_inv s \<Longrightarrow> lock_inv (unlockScreen d s)"
proof -
  assume inv: "lock_inv s"
  show ?thesis
  proof (cases "d \<in> lockOwners s")
    case True
    with inv have "0 < card (lockOwners s)"
      by (auto simp: lock_inv_def card_gt_0_iff)
    with inv True show ?thesis
      by (auto simp: lock_inv_def unlockScreen_def)
  next
    case False
    with inv show ?thesis by (simp add: unlockScreen_def)
  qed
qed

lemma lock_inv_hide:
  "lock_inv s \<Longrightarrow> lock_inv (unlockScreen d (upd d (\<lambda>x. x\<lparr>display := DisplayNone\<rparr>) s))"
proof -
  assume inv: "lock_inv s"
  show ?thesis
  proof (cases "d \<in> lockOwners s")
    case True
    with inv have "0 < card (lockOwners s)"
      by (auto simp: lock_inv_def card_gt_0_iff)
    with inv True show ?thesis
      by (auto simp: lock_inv_def unlockScreen_def upd_def)
  next
    case False
    with inv show ?thesis by (auto simp: unlockScreen_def upd_def lock_inv_def)
  qed
qed

lemma lock_inv_run: "lock_inv s \<Longrightarrow> lock_inv (run d p s)"
  by (auto simp: run_def prim_defs Let_def lock_inv_def)

lemma lock_inv_onOpenChange: "lock_inv s \<Longrightarrow> lock_inv (onOpenChange d p s)"
  by (auto simp: onOpenChange_def lock_inv_run) (auto simp: lock_inv_def prim_defs)

lemma lock_inv_set_open: "lock_inv s \<Longrightarrow> lock_inv (set_open d v p s)"
  unfolding set_open_def Let_def
  by (auto intro!: lock_inv_onOpenChange simp: lock_inv_upd)

lemma lock_inv_continue: "lock_inv s \<Longrightarrow> lock_inv (continue d c p s)"
proof (cases c)
  case (CloseAwaitAnimate a)
  assume inv: "lock_inv s"
  have "lock_inv (unlockScreen d (upd d (\<lambda>x. x\<lparr>display := DisplayNone\<rparr>) s))"
    using inv by (rule lock_inv_hide)
  then show ?thesis
    unfolding CloseAwaitAnimate
    by (auto simp: Let_def emit_def lock_inv_def split: option.splits)
qed (auto simp: lock_inv_run, auto simp: lock_inv_def prim_defs Let_def)

lemma lock_inv_resume: "lock_inv s \<Longrightarrow> lock_inv (resume d c p s)"
  unfolding resume_def
  by (auto intro!: lock_inv_continue simp: lock_inv_upd)

lemma lock_inv_dispatchKeydown: "lock_inv s \<Longrightarrow> lock_inv (dispatchKeydown path key p s)"
  by (induction path) (auto simp: lock_inv_set_open)

lemma lock_inv_focusCallback: "lock_inv (focusCallback d s) = lock_inv s"
  by (auto simp: focusCallback_def focus_def lock_inv_def split: option.splits)

lemma lock_inv_fold_focus: "lock_inv (fold focusCallback ds s) = lock_inv s"
  by (induction ds arbitrary: s) (auto simp: lock_inv_focusCallback)

lemma lock_inv_step: "lock_inv s \<Longrightarrow> lock_inv (step s l)"
proof (cases l)
  case (SetOpen d v p)
  assume "lock_inv s"
  then show ?thesis unfolding SetOpen by (simp add: lock_inv_set_open)
next
  case (FirstUpdate d w)
  assume inv: "lock_inv s"
  then have "lock_inv (onOpenChange d False s)" by (rule lock_inv_onOpenChange)
  with inv show ?thesis unfolding FirstUpdate
    by (auto simp: firstUpdate_def Let_def lock_inv_upd)
next
  case (Resume d c p)
  assume "lock_inv s"
  then show ?thesis unfolding Resume by (simp add: lock_inv_resume)
next
  case (AnimationFinish d a)
  assume "lock_inv s"
  then show ?thesis unfolding AnimationFinish
    by (simp add: animationFinish_def lock_inv_upd)
next
  case AnimationFrame
  assume "lock_inv s"
  then show ?thesis unfolding AnimationFrame
    by (simp add: animationFrame_def lock_inv_fold_focus) (simp add: lock_inv_def)
next
  case TimeoutFire
  assume "lock_inv s"
  then show ?thesis unfolding TimeoutFire
    by (auto simp: timeoutFire_def focus_def lock_inv_def split: list.splits)
next
  case (KeyDown path key p)
  assume "lock_inv s"
  then show ?thesis unfolding KeyDown by (simp add: lock_inv_dispatchKeydown)
next
  case (OverlayClick d p)
  assume "lock_inv s"
  then have "lock_inv (emit d EvOverlayClick s)" by (simp add: lock_inv_def emit_def)
  then show ?thesis unfolding OverlayClick
    by (auto simp: onOverlayClick_def Let_def lock_inv_set_open)
next
  case (Connected d)
  assume "lock_inv s"
  then show ?thesis unfolding Connected
    by (simp add: connectedCallback_def lock_inv_upd)
next
  case (Disconnected d)
  assume "lock_inv s"
  then show ?thesis unfolding Disconnected
    by (simp add: disconnectedCallback_def lock_inv_unlockScreen)
next
  case (SetFocusable e b)
  assume "lock_inv s"
  then show ?thesis unfolding SetFocusable
    by (simp add: lock_inv_def)
qed

lemma lock_inv_exec: "lock_inv s \<Longrightarrow> lock_inv (exec ls s)"
  unfolding exec_def by (induction ls arbitrary: s) (auto simp: lock_inv_step)

lemma lock_inv_initial: "lock_inv (initial ds focused)"
  by (simp add: lock_inv_def initial_def)

lemma inactive_not_displayed: "overlay_state_of x = Inactive \<Longrightarrow> display x \<noteq> DisplayFlex"
  by (auto simp: overlay_state_of_def split: if_splits)

text \<open>
  C2. After any sequence of events on any page (dialogs opened and closed in any order,
  transitions interrupted, elements disconnected), the scroll-lock counter is not
  negative and equals the number of dialogs that hold a unit; a unit is held only by a
  displayed dialog, so once every overlay is inactive the counter is exactly 0.
  Disconnecting a dialog takes back its unit if it holds one, and only then decrements:
  an increment is never answered by two decrements.
\<close>

theorem scroll_lock_paired:
  "let s = exec ls (initial ds focused) in
     0 \<le> lockCount s \<and>
     lockCount s = int (card (lockOwners s)) \<and>
     (\<forall>d \<in> lockOwners s. display (dialogs s d) = DisplayFlex) \<and>
     ((\<forall>d. overlay_state_of (dialogs s d) = Inactive) \<longrightarrow> lockCount s = 0) \<and>
     (\<forall>d. d \<notin> lockOwners (step s (Disconnected d)) \<and>
          lockCount (step s (Disconnected d)) =
            lockCount s - (if d \<in> lockOwners s then 1 else 0))"
proof -
  define s where "s = exec ls (initial ds focused)"
  have inv: "lock_inv s"
    unfolding s_def by (intro lock_inv_exec lock_inv_initial)
  have "lockOwners s = {}" if "\<forall>d. overlay_state_of (dialogs s d) = Inactive"
    using inv that inactive_not_displayed unfolding lock_inv_def by blast
  with inv have closed: "(\<forall>d. overlay_state_of (dialogs s d) = Inactive) \<longrightarrow> lockCount s = 0"
    by (auto simp: lock_inv_def)
  have disc: "\<forall>d. d \<notin> lockOwners (step s (Disconnected d)) \<and>
      lockCount (step s (Disconnected d)) = lockCount s - (if d \<in> lockOwners s then 1 else 0)"
    by (simp add: disconnectedCallback_def unlockScreen_def)
  from inv closed disc show ?thesis
    unfolding s_def[symmetric] Let_def lock_inv_def by simp
qed

theorem scroll_lock_paired_witness:
  "lockCount stacked = 2 \<and>
   lockCount (exec [Disconnected 1, Disconnected 1] stacked) = 1 \<and>
   (\<forall>d. overlay_state_of (dialogs (exec [Disconnected 1] hidden) d) = Inactive) \<and>
   lockCount (exec [Disconnected 1] hidden) = 0"
proof -
  let ?open = "[Connected 0, Connected 1, FirstUpdate 0 False, FirstUpdate 1 False,
      SetOpen 0 True False, Resume 0 OpenAwaitStop False, AnimationFrame,
      AnimationFinish 0 0, Resume 0 (OpenAwaitAnimate 0) False]"
  let ?close = "[SetOpen 0 False False, Resume 0 CloseAwaitStop False, AnimationFinish 0 1,
      Resume 0 (CloseAwaitAnimate 1) False, Disconnected 1]"
  have e: "exec [Disconnected 1] hidden =
      exec (?open @ ?close) (initial (\<lambda>_. new_dialog True True None) (Some (Elem 7)))"
    by (simp add: page_defs exec_def)
  have a: "\<forall>d. overlay_state_of (dialogs (exec [Disconnected 1] hidden) d) = Inactive"
    by (simp add: page_defs exec_defs)
  from scroll_lock_paired[of "?open @ ?close" "\<lambda>_. new_dialog True True None" "Some (Elem 7)"]
  have "(\<forall>d. overlay_state_of (dialogs (exec [Disconnected 1] hidden) d) = Inactive) \<longrightarrow>
      lockCount (exec [Disconnected 1] hidden) = 0"
    unfolding e Let_def by blast
  with a have z: "lockCount (exec [Disconnected 1] hidden) = 0" by blast
  have v: "lockCount stacked = 2" "lockCount (exec [Disconnected 1, Disconnected 1] stacked) = 1"
    by (simp_all add: page_defs exec_defs)
  from v a z show ?thesis by blast
qed

subsection \<open>The Escape key\<close>

lemma dispatchKeydown_find:
  "dispatchKeydown path key p s =
     (case find (handlesKey s key) path of None \<Rightarrow> s | Some d \<Rightarrow> set_open d False p s)"
  by (induction path) auto

text \<open>
  C3 (as amended). An Escape \<open>keydown\<close> is taken by the first dialog on the event's path,
  from the target outwards, that has the listener, is open and has close-on-escape
  enabled: it gets the close intent, and no other dialog is changed (\<open>stopPropagation\<close>
  keeps the event from the dialogs further out). So when the event's target lies in
  the topmost of two stacked dialogs, only the topmost closes and the lower one stays
  as it is. A path without such a dialog, or another key, changes nothing. The listener
  does not look at the stack of overlays.
\<close>

theorem escape_closes_first_listener_on_path:
  assumes "s' = step s (KeyDown path key p)"
  shows "(find (handlesKey s key) path = None \<longrightarrow> s' = s) \<and>
         (\<forall>d. find (handlesKey s key) path = Some d \<longrightarrow>
              s' = set_open d False p s \<and>
              \<not> open_flag (dialogs s' d) \<and>
              (\<forall>d'. d' \<noteq> d \<longrightarrow> dialogs s' d' = dialogs s d')) \<and>
         (\<forall>top lower rest. path = top # rest \<and> handlesKey s key top \<and> lower \<noteq> top \<longrightarrow>
              \<not> open_flag (dialogs s' top) \<and>
              dialogs s' lower = dialogs s lower \<and>
              overlay_state_of (dialogs s' lower) = overlay_state_of (dialogs s lower)) \<and>
         (key \<noteq> ''Escape'' \<longrightarrow> s' = s)"
proof (intro conjI allI impI)
  have s': "s' = dispatchKeydown path key p s" using assms by simp
  {
    assume "find (handlesKey s key) path = None"
    then show "s' = s" by (simp add: s' dispatchKeydown_find)
  }
  {
    fix d assume f: "find (handlesKey s key) path = Some d"
    then show eq: "s' = set_open d False p s"
      by (simp add: s' dispatchKeydown_find)
    show "\<not> open_flag (dialogs s' d)"
      unfolding eq by (simp add: open_flag_set_open)
    show "dialogs s' d' = dialogs s d'" if "d' \<noteq> d" for d'
      unfolding eq using that by (rule set_open_others)
  }
  {
    fix top lower rest
    assume a: "path = top # rest \<and> handlesKey s key top \<and> lower \<noteq> top"
    then have eq: "s' = set_open top False p s" by (simp add: s')
    show "\<not> open_flag (dialogs s' top)"
      unfolding eq by (simp add: open_flag_set_open)
    from a show same: "dialogs s' lower = dialogs s lower"
      unfolding eq by (simp add: set_open_others)
    show "overlay_state_of (dialogs s' lower) = overlay_state_of (dialogs s lower)"
      unfolding same by (rule refl)
  }
  {
    assume "key \<noteq> ''Escape''"
    then have "find (handlesKey s key) path = None"
      by (induction path) (auto simp: handlesKey_def)
    then show "s' = s"
      by (simp add: s' dispatchKeydown_find)
  }
qed

text \<open>
  C3, counterexample. Dialog 0 is shown and dialog 1 has just been opened on top of it:
  both are open with close-on-escape enabled, the stack is \<open>[0, 1]\<close>, and focus is
  still on the panel of dialog 0, because the focus of dialog 1 waits for the next
  animation frame. Escape pressed now reaches dialog 0 only: the lower dialog reacts and
  starts closing, the topmost stays open.
\<close>

theorem escape_reaches_lower_dialog:
  "activeModals stacked = [0, 1] \<and>
   closeOnEsc (dialogs stacked 0) \<and> closeOnEsc (dialogs stacked 1) \<and>
   open_flag (dialogs stacked 0) \<and> open_flag (dialogs stacked 1) \<and>
   overlay_state_of (dialogs stacked 0) = Active \<and>
   activeElement stacked = Some (Panel 0) \<and>
   overlay_state_of (dialogs (step stacked (KeyDown [0] ''Escape'' False)) 0) = Closing \<and>
   \<not> open_flag (dialogs (step stacked (KeyDown [0] ''Escape'' False)) 0) \<and>
   events (step stacked (KeyDown [0] ''Escape'' False)) = events stacked @ [(0, EvClose)] \<and>
   open_flag (dialogs (step stacked (KeyDown [0] ''Escape'' False)) 1)"
  by (simp add: page_defs exec_defs)

theorem escape_witness:
  "handlesKey stacked ''Escape'' 1 \<and>
   find (handlesKey stacked ''Escape'') [1] = Some 1 \<and>
   \<not> open_flag (dialogs (step stacked (KeyDown [1] ''Escape'' False)) 1) \<and>
   dialogs (step stacked (KeyDown [1] ''Escape'' False)) 0 = dialogs stacked 0 \<and>
   overlay_state_of (dialogs (step stacked (KeyDown [1] ''Escape'' False)) 0) = Active \<and>
   find (handlesKey rendered ''Escape'') [1, 0] = None \<and>
   step rendered (KeyDown [1, 0] ''Escape'' False) = rendered"
proof -
  have h: "handlesKey stacked ''Escape'' 1" "find (handlesKey stacked ''Escape'') [1] = Some 1"
    "find (handlesKey rendered ''Escape'') [1, 0] = None"
    "overlay_state_of (dialogs stacked 0) = Active"
    by (simp_all add: page_defs exec_defs)
  have ne: "(0::nat) \<noteq> 1" by simp
  from escape_closes_first_listener_on_path[where s = stacked and path = "[1]"
      and key = "''Escape''" and p = False, OF refl] h(1) ne
  have c: "\<not> open_flag (dialogs (step stacked (KeyDown [1] ''Escape'' False)) 1) \<and>
      dialogs (step stacked (KeyDown [1] ''Escape'' False)) 0 = dialogs stacked 0 \<and>
      overlay_state_of (dialogs (step stacked (KeyDown [1] ''Escape'' False)) 0) =
        overlay_state_of (dialogs stacked 0)"
    by blast
  from escape_closes_first_listener_on_path[where s = rendered and path = "[1, 0]"
      and key = "''Escape''" and p = False, OF refl] h(3)
  have n: "step rendered (KeyDown [1, 0] ''Escape'' False) = rendered"
    by blast
  from h c n show ?thesis by simp
qed

subsection \<open>What each step of a transition does\<close>






lemma animationFinish_effect:
  assumes "s' = animationFinish d a s"
  shows "events s' = events s"
    and "display (dialogs s' d) = display (dialogs s d)"
    and "originalTrigger (dialogs s' d) = originalTrigger (dialogs s d)"
    and "activeModals s' = activeModals s"
    and "lockOwners s' = lockOwners s"
    and "lockCount s' = lockCount s"
    and "animations (dialogs s' d) = filter (\<lambda>e. fst e \<noteq> a) (animations (dialogs s d))"
    and "runs (dialogs s' d) = runs (dialogs s d)"
    and "nextAnim (dialogs s' d) = nextAnim (dialogs s d)"
    and "autofocusTarget (dialogs s' d) = autofocusTarget (dialogs s d)"
    and "open_flag (dialogs s' d) = open_flag (dialogs s d)"
    and "hasUpdated (dialogs s' d) = hasUpdated (dialogs s d)"
    and "activeElement s' = activeElement s"
    and "frameCallbacks s' = frameCallbacks s"
    and "timeouts s' = timeouts s"
    and "focusable s' = focusable s"
    and "inertContent s' = inertContent s"
  unfolding assms by (simp_all add: animationFinish_def upd_def)

lemma resume_OpenAwaitAnimate:
  assumes "OpenAwaitAnimate a \<in> set (runs (dialogs s d))"
    and "a \<notin> fst ` set (animations (dialogs s d))"
    and "s' = resume d (OpenAwaitAnimate a) p s"
  shows "events s' = events s @ [(d, EvOpened)]"
    and "display (dialogs s' d) = display (dialogs s d)"
    and "originalTrigger (dialogs s' d) = originalTrigger (dialogs s d)"
    and "activeModals s' = activeModals s"
    and "lockOwners s' = lockOwners s"
    and "lockCount s' = lockCount s"
    and "animations (dialogs s' d) = animations (dialogs s d)"
    and "runs (dialogs s' d) = remove1 (OpenAwaitAnimate a) (runs (dialogs s d))"
    and "nextAnim (dialogs s' d) = nextAnim (dialogs s d)"
    and "autofocusTarget (dialogs s' d) = autofocusTarget (dialogs s d)"
    and "open_flag (dialogs s' d) = open_flag (dialogs s d)"
    and "hasUpdated (dialogs s' d) = hasUpdated (dialogs s d)"
    and "activeElement s' = activeElement s"
    and "frameCallbacks s' = frameCallbacks s"
    and "timeouts s' = timeouts s"
    and "focusable s' = focusable s"
    and "inertContent s' = inertContent s"
  using assms
  by (auto simp: resume_def prim_defs Let_def)

lemma close_start:
  assumes "hasUpdated (dialogs s d)" "open_flag (dialogs s d)"
    and "s' = set_open d False False s"
  shows "events s' = events s @ [(d, EvClose)]"
    and "display (dialogs s' d) = display (dialogs s d)"
    and "originalTrigger (dialogs s' d) = originalTrigger (dialogs s d)"
    and "activeModals s' = removeAll d (activeModals s)"
    and "lockOwners s' = lockOwners s"
    and "lockCount s' = lockCount s"
    and "animations (dialogs s' d) = []"
    and "runs (dialogs s' d) = runs (dialogs s d) @ [CloseAwaitStop]"
    and "nextAnim (dialogs s' d) = nextAnim (dialogs s d)"
    and "autofocusTarget (dialogs s' d) = autofocusTarget (dialogs s d)"
    and "\<not> open_flag (dialogs s' d)"
    and "hasUpdated (dialogs s' d)"
    and "activeElement s' = activeElement s"
    and "frameCallbacks s' = frameCallbacks s"
    and "timeouts s' = timeouts s"
    and "focusable s' = focusable s"
    and "inertContent s' = obscured (removeAll d (activeModals s))"
  using assms
  by (auto simp: set_open_def onOpenChange_def run_def prim_defs Let_def)

lemma resume_CloseAwaitStop:
  assumes "CloseAwaitStop \<in> set (runs (dialogs s d))"
    and "s' = resume d CloseAwaitStop p s"
  shows "events s' = events s"
    and "display (dialogs s' d) = display (dialogs s d)"
    and "originalTrigger (dialogs s' d) = originalTrigger (dialogs s d)"
    and "activeModals s' = activeModals s"
    and "lockOwners s' = lockOwners s"
    and "lockCount s' = lockCount s"
    and "animations (dialogs s' d) = animations (dialogs s d) @ [(nextAnim (dialogs s d), CloseAnim)]"
    and "runs (dialogs s' d) =
           remove1 CloseAwaitStop (runs (dialogs s d)) @ [CloseAwaitAnimate (nextAnim (dialogs s d))]"
    and "nextAnim (dialogs s' d) = Suc (nextAnim (dialogs s d))"
    and "autofocusTarget (dialogs s' d) = autofocusTarget (dialogs s d)"
    and "open_flag (dialogs s' d) = open_flag (dialogs s d)"
    and "hasUpdated (dialogs s' d) = hasUpdated (dialogs s d)"
    and "activeElement s' = activeElement s"
    and "frameCallbacks s' = frameCallbacks s"
    and "timeouts s' = timeouts s"
    and "focusable s' = focusable s"
    and "inertContent s' = inertContent s"
  using assms
  by (auto simp: resume_def prim_defs Let_def)

lemma resume_CloseAwaitAnimate:
  assumes "CloseAwaitAnimate a \<in> set (runs (dialogs s d))"
    and "a \<notin> fst ` set (animations (dialogs s d))"
    and "s' = resume d (CloseAwaitAnimate a) p s"
  shows "events s' = events s @ [(d, EvClosed)]"
    and "display (dialogs s' d) = DisplayNone"
    and "originalTrigger (dialogs s' d) = originalTrigger (dialogs s d)"
    and "activeModals s' = activeModals s"
    and "lockOwners s' = lockOwners s - {d}"
    and "lockCount s' = lockCount s - (if d \<in> lockOwners s then 1 else 0)"
    and "animations (dialogs s' d) = animations (dialogs s d)"
    and "runs (dialogs s' d) = remove1 (CloseAwaitAnimate a) (runs (dialogs s d))"
    and "nextAnim (dialogs s' d) = nextAnim (dialogs s d)"
    and "autofocusTarget (dialogs s' d) = autofocusTarget (dialogs s d)"
    and "open_flag (dialogs s' d) = open_flag (dialogs s d)"
    and "hasUpdated (dialogs s' d) = hasUpdated (dialogs s d)"
    and "activeElement s' = activeElement s"
    and "frameCallbacks s' = frameCallbacks s"
    and "timeouts s' = timeouts s @ restoreTargets (dialogs s d)"
    and "focusable s' = focusable s"
    and "inertContent s' = inertContent s"
  using assms
  by (auto simp: resume_def prim_defs Let_def restoreTargets_def split: option.splits)


lemmas view_simps =
  resume_OpenAwaitAnimate(2,7,8,9)[OF _ _ refl]
  resume_CloseAwaitStop(2,7,8,9)[OF _ refl]
  animationFinish_effect(2,7,8,9)[OF refl]
  resume_CloseAwaitAnimate(2,7,8,9)[OF _ _ refl]

subsection \<open>The opening transition\<close>




subsection \<open>The closing transition\<close>




subsection \<open>Closing while the open animation runs\<close>

text \<open>
  C6. A dialog whose open animation is still running (the only invocation in flight
  waits for it) gets the close intent, and the \<open>close\<close> notification is not prevented.
  Handling the intent cancels the running animation at once (\<open>stopAnimations\<close>), before
  the close animation is started. From then on, whichever way the resumption of the
  interrupted opening falls among the steps of the closing, the only animation ever
  running on the dialog is the close animation, never two at a time; and at the end no
  invocation is in flight, no animation is running and the dialog is inactive.
\<close>

theorem close_during_open_animation:
  assumes "hasUpdated (dialogs s d)" and "open_flag (dialogs s d)"
    and "runs (dialogs s d) = [OpenAwaitAnimate a]"
    and "animations (dialogs s d) = [(a, OpenAnim)]"
    and "a < nextAnim (dialogs s d)"
    and "a' = nextAnim (dialogs s d)"
    and "s0 = step s (SetOpen d False False)"
    and "sched \<in> set (insert_everywhere (Resume d (OpenAwaitAnimate a) p)
            [Resume d CloseAwaitStop q, AnimationFinish d a', Resume d (CloseAwaitAnimate a') r])"
  shows "animations (dialogs s0 d) = [] \<and>
         (\<forall>s' \<in> set (states_along sched s0).
             animations (dialogs s' d) = [] \<or> animations (dialogs s' d) = [(a', CloseAnim)]) \<and>
         animations (dialogs (exec sched s0) d) = [] \<and>
         runs (dialogs (exec sched s0) d) = [] \<and>
         overlay_state_of (dialogs (exec sched s0) d) = Inactive"
proof -
  have s0: "s0 = set_open d False False s" using assms(7) by simp
  note e0 = close_start(2,7,8,9)[OF assms(1,2) s0]
  have ne: "a \<noteq> a'" using assms(5,6) by simp
  from assms(8) consider
      "sched = [Resume d (OpenAwaitAnimate a) p, Resume d CloseAwaitStop q, AnimationFinish d a',
                Resume d (CloseAwaitAnimate a') r]"
    | "sched = [Resume d CloseAwaitStop q, Resume d (OpenAwaitAnimate a) p, AnimationFinish d a',
                Resume d (CloseAwaitAnimate a') r]"
    | "sched = [Resume d CloseAwaitStop q, AnimationFinish d a', Resume d (OpenAwaitAnimate a) p,
                Resume d (CloseAwaitAnimate a') r]"
    | "sched = [Resume d CloseAwaitStop q, AnimationFinish d a', Resume d (CloseAwaitAnimate a') r,
                Resume d (OpenAwaitAnimate a) p]"
    by auto
  then show ?thesis
  proof cases
    case 1
    show ?thesis
      unfolding 1 using ne
      by (simp add: exec_def view_simps e0 assms(3) assms(6)[symmetric] overlay_state_of_runs)
  next
    case 2
    show ?thesis
      unfolding 2 using ne
      by (simp add: exec_def view_simps e0 assms(3) assms(6)[symmetric] overlay_state_of_runs)
  next
    case 3
    show ?thesis
      unfolding 3 using ne
      by (simp add: exec_def view_simps e0 assms(3) assms(6)[symmetric] overlay_state_of_runs)
  next
    case 4
    show ?thesis
      unfolding 4 using ne
      by (simp add: exec_def view_simps e0 assms(3) assms(6)[symmetric] overlay_state_of_runs)
  qed
qed

theorem close_during_open_animation_witness:
  "hasUpdated (dialogs animating 0) \<and> open_flag (dialogs animating 0) \<and>
   runs (dialogs animating 0) = [OpenAwaitAnimate 0] \<and>
   animations (dialogs animating 0) = [(0, OpenAnim)] \<and>
   0 < nextAnim (dialogs animating 0) \<and>
   animations (dialogs (step animating (SetOpen 0 False False)) 0) = [] \<and>
   animations (dialogs (exec [Resume 0 CloseAwaitStop False, Resume 0 (OpenAwaitAnimate 0) False,
       AnimationFinish 0 1, Resume 0 (CloseAwaitAnimate 1) False]
       (step animating (SetOpen 0 False False))) 0) = [] \<and>
   overlay_state_of (dialogs (exec [Resume 0 CloseAwaitStop False,
       Resume 0 (OpenAwaitAnimate 0) False, AnimationFinish 0 1,
       Resume 0 (CloseAwaitAnimate 1) False]
       (step animating (SetOpen 0 False False))) 0) = Inactive"
proof -
  have h: "hasUpdated (dialogs animating 0)" "open_flag (dialogs animating 0)"
    "runs (dialogs animating 0) = [OpenAwaitAnimate 0]"
    "animations (dialogs animating 0) = [(0, OpenAnim)]"
    "0 < nextAnim (dialogs animating 0)"
    "1 = nextAnim (dialogs animating 0)"
    by (simp_all add: page_defs exec_defs)
  let ?sched = "[Resume 0 CloseAwaitStop False, Resume 0 (OpenAwaitAnimate 0) False,
      AnimationFinish 0 1, Resume 0 (CloseAwaitAnimate 1) False]"
  have m: "?sched \<in> set (insert_everywhere (Resume 0 (OpenAwaitAnimate 0) False)
      [Resume 0 CloseAwaitStop False, AnimationFinish 0 1, Resume 0 (CloseAwaitAnimate 1) False])"
    by simp
  from close_during_open_animation[OF h refl m]
  have c: "animations (dialogs (step animating (SetOpen 0 False False)) 0) = [] \<and>
      animations (dialogs (exec ?sched (step animating (SetOpen 0 False False))) 0) = [] \<and>
      overlay_state_of (dialogs (exec ?sched (step animating (SetOpen 0 False False))) 0) =
        Inactive"
    by blast
  from c h(1-5) show ?thesis by blast
qed

section \<open>Properties of the declarative trigger\<close>

lemma store_inv_empty: "store_inv empty_page"
  by (simp add: store_inv_def empty_page_def)

lemma store_inv_distinct:
  assumes "store_inv pg"
  shows "distinct (map element_of (controllers pg))"
proof -
  have "i = j" if "i < length (controllers pg)" "j < length (controllers pg)"
      "element_of (controllers pg ! i) = element_of (controllers pg ! j)" for i j
  proof -
    from assms that
    have "dataStore pg (element_of (controllers pg ! j)) ''mdui.dialog'' = Some i"
      and "dataStore pg (element_of (controllers pg ! j)) ''mdui.dialog'' = Some j"
      unfolding store_inv_def by blast+
    then show ?thesis by simp
  qed
  then show ?thesis
    unfolding distinct_conv_nth by (simp (no_asm_simp)) blast
qed

lemma dialogClick_first:
  assumes "target_node parseOptions dom_nodes attr = Some n"
    and "getData pg n ''mdui.dialog'' = None"
  shows "dialogClick parseOptions dom_nodes attr pg =
     Some (pg\<lparr>controllers := controllers pg @
                 [\<lparr>element_of = n,
                   options_of = filter (\<lambda>e. fst e \<noteq> ''target'') (parseOptions attr)\<rparr>],
              dataStore := (dataStore pg)
                 (n := (dataStore pg n)(''mdui.dialog'' \<mapsto> length (controllers pg))),
              openCalls := openCalls pg @ [length (controllers pg)]\<rparr>)"
  using assms
  by (simp add: dialogClick_def Let_def setData_def newDialog_def openDialog_def)

lemma dialogClick_again:
  assumes "target_node parseOptions dom_nodes attr = Some n"
    and "getData pg n ''mdui.dialog'' = Some i"
  shows "dialogClick parseOptions dom_nodes attr pg = Some (pg\<lparr>openCalls := openCalls pg @ [i]\<rparr>)"
  using assms by (simp add: dialogClick_def Let_def openDialog_def)

lemma dialogClick_step:
  assumes "store_inv pg" and "dialogClick parseOptions dom_nodes attr pg = Some pg'"
  shows "store_inv pg'"
    and "\<exists>n i. target_node parseOptions dom_nodes attr = Some n \<and>
           openCalls pg' = openCalls pg @ [i] \<and> dataStore pg' n ''mdui.dialog'' = Some i"
    and "\<And>n i. dataStore pg n ''mdui.dialog'' = Some i \<Longrightarrow>
           dataStore pg' n ''mdui.dialog'' = Some i"
proof -
  from assms(2) obtain n where n: "target_node parseOptions dom_nodes attr = Some n"
    by (auto simp: dialogClick_def Let_def split: option.splits)
  show "store_inv pg'"
  proof (cases "getData pg n ''mdui.dialog''")
    case None
    let ?i = "length (controllers pg)"
    let ?c = "\<lparr>element_of = n,
       options_of = filter (\<lambda>e. fst e \<noteq> ''target'') (parseOptions attr)\<rparr>"
    from dialogClick_first[OF n None] assms(2)
    have pg': "dataStore pg' = (dataStore pg)(n := (dataStore pg n)(''mdui.dialog'' \<mapsto> ?i))"
      "controllers pg' = controllers pg @ [?c]"
      by auto
    from None have free: "dataStore pg n ''mdui.dialog'' = None" by (simp add: getData_def)
    show ?thesis
      unfolding store_inv_def
    proof (intro allI)
      fix m i
      show "dataStore pg' m ''mdui.dialog'' = Some i \<longleftrightarrow>
            i < length (controllers pg') \<and> element_of (controllers pg' ! i) = m"
      proof (cases "i < ?i")
        case True
        with assms(1)
        have "dataStore pg m ''mdui.dialog'' = Some i \<longleftrightarrow> element_of (controllers pg ! i) = m"
          by (simp add: store_inv_def)
        moreover have "element_of (controllers pg ! i) \<noteq> n"
        proof
          assume "element_of (controllers pg ! i) = n"
          with assms(1) True have "dataStore pg n ''mdui.dialog'' = Some i"
            unfolding store_inv_def by blast
          with free show False by simp
        qed
        ultimately show ?thesis using True
          by (auto simp: pg' nth_append)
      next
        case False
        with assms(1) have "dataStore pg m ''mdui.dialog'' \<noteq> Some i"
          by (simp add: store_inv_def)
        with False show ?thesis
          by (auto simp: pg' nth_append)
      qed
    qed
  next
    case (Some i)
    from dialogClick_again[OF n Some] assms(2) have "pg' = pg\<lparr>openCalls := openCalls pg @ [i]\<rparr>"
      by simp
    with assms(1) show ?thesis
      by (simp add: store_inv_def)
  qed
  show "\<exists>n i. target_node parseOptions dom_nodes attr = Some n \<and>
           openCalls pg' = openCalls pg @ [i] \<and> dataStore pg' n ''mdui.dialog'' = Some i"
  proof (cases "getData pg n ''mdui.dialog''")
    case None
    from dialogClick_first[OF n None] assms(2) n show ?thesis by auto
  next
    case (Some i)
    from dialogClick_again[OF n Some] assms(2) n Some show ?thesis
      by (auto simp: getData_def)
  qed
  show "dataStore pg' m ''mdui.dialog'' = Some i" if "dataStore pg m ''mdui.dialog'' = Some i" for m i
  proof (cases "getData pg n ''mdui.dialog''")
    case None
    with that have "m \<noteq> n" by (auto simp: getData_def)
    with dialogClick_first[OF n None] assms(2) that show ?thesis by auto
  next
    case (Some j)
    from dialogClick_again[OF n Some] assms(2) that show ?thesis by auto
  qed
qed

lemma clicks_keep:
  "store_inv pg \<Longrightarrow> clicks parseOptions dom_nodes attrs pg = Some pg' \<Longrightarrow>
   store_inv pg' \<and>
   (\<forall>n i. dataStore pg n ''mdui.dialog'' = Some i \<longrightarrow> dataStore pg' n ''mdui.dialog'' = Some i)"
proof (induction attrs arbitrary: pg)
  case Nil
  then show ?case by simp
next
  case (Cons attr attrs)
  from Cons.prems(2) obtain pg1 where 1: "dialogClick parseOptions dom_nodes attr pg = Some pg1"
    and 2: "clicks parseOptions dom_nodes attrs pg1 = Some pg'"
    by (auto split: option.splits)
  from dialogClick_step[OF Cons.prems(1) 1] Cons.IH[OF _ 2] show ?case by blast
qed

lemma clicks_opens:
  "store_inv pg \<Longrightarrow> clicks parseOptions dom_nodes attrs pg = Some pg' \<Longrightarrow>
   \<exists>os. openCalls pg' = openCalls pg @ os \<and> length os = length attrs \<and>
     (\<forall>k < length attrs. \<exists>n. target_node parseOptions dom_nodes (attrs ! k) = Some n \<and>
          dataStore pg' n ''mdui.dialog'' = Some (os ! k))"
proof (induction attrs arbitrary: pg)
  case Nil
  then show ?case by simp
next
  case (Cons attr attrs)
  from Cons.prems(2) obtain pg1 where 1: "dialogClick parseOptions dom_nodes attr pg = Some pg1"
    and 2: "clicks parseOptions dom_nodes attrs pg1 = Some pg'"
    by (auto split: option.splits)
  note st = dialogClick_step[OF Cons.prems(1) 1]
  from st(2) obtain n i where n: "target_node parseOptions dom_nodes attr = Some n"
    and o1: "openCalls pg1 = openCalls pg @ [i]"
    and d1: "dataStore pg1 n ''mdui.dialog'' = Some i"
    by blast
  from Cons.IH[OF st(1) 2] obtain os where os: "openCalls pg' = openCalls pg1 @ os"
    "length os = length attrs"
    "\<forall>k < length attrs. \<exists>n. target_node parseOptions dom_nodes (attrs ! k) = Some n \<and>
          dataStore pg' n ''mdui.dialog'' = Some (os ! k)"
    by blast
  from clicks_keep[OF st(1) 2] d1 have d': "dataStore pg' n ''mdui.dialog'' = Some i" by blast
  have "\<forall>k < length (attr # attrs).
      \<exists>n. target_node parseOptions dom_nodes ((attr # attrs) ! k) = Some n \<and>
          dataStore pg' n ''mdui.dialog'' = Some ((i # os) ! k)"
  proof (intro allI impI)
    fix k assume "k < length (attr # attrs)"
    then show "\<exists>n. target_node parseOptions dom_nodes ((attr # attrs) ! k) = Some n \<and>
          dataStore pg' n ''mdui.dialog'' = Some ((i # os) ! k)"
      using n d' os(3) by (cases k) auto
  qed
  with os o1 show ?case
    by (intro exI[of _ "i # os"]) simp
qed

text \<open>
  C7. Start from a page on which no controller has been made, and let any number of
  clicks on trigger elements be handled, each of whose targets resolves to a node. Every
  click calls \<open>open\<close> once, on the controller that the Node Data Store holds under the
  resolved node, and that controller was constructed for this node. No node ever gets a
  second controller, so two clicks with the same target open the same instance. In
  one step: when the store has no controller for the node, one is constructed from the
  options without \<open>target\<close>, stored under the node and opened; when it has one, nothing
  is constructed or stored and the stored one is opened.
\<close>

theorem trigger_reuses_stored_controller:
  assumes "clicks parseOptions dom_nodes attrs empty_page = Some pg"
  shows "length (openCalls pg) = length attrs \<and>
         distinct (map element_of (controllers pg)) \<and>
         (\<forall>k < length attrs. \<exists>n.
              target_node parseOptions dom_nodes (attrs ! k) = Some n \<and>
              getData pg n ''mdui.dialog'' = Some (openCalls pg ! k) \<and>
              openCalls pg ! k < length (controllers pg) \<and>
              element_of (controllers pg ! (openCalls pg ! k)) = n) \<and>
         (\<forall>k < length attrs. \<forall>l < length attrs.
              target_node parseOptions dom_nodes (attrs ! k) =
                target_node parseOptions dom_nodes (attrs ! l) \<longrightarrow>
              openCalls pg ! k = openCalls pg ! l) \<and>
         (\<forall>pg0 attr n. target_node parseOptions dom_nodes attr = Some n \<and>
              getData pg0 n ''mdui.dialog'' = None \<longrightarrow>
              dialogClick parseOptions dom_nodes attr pg0 =
                Some (pg0\<lparr>controllers := controllers pg0 @
                             [\<lparr>element_of = n,
                               options_of = filter (\<lambda>e. fst e \<noteq> ''target'') (parseOptions attr)\<rparr>],
                          dataStore := (dataStore pg0)
                             (n := (dataStore pg0 n)(''mdui.dialog'' \<mapsto> length (controllers pg0))),
                          openCalls := openCalls pg0 @ [length (controllers pg0)]\<rparr>)) \<and>
         (\<forall>pg0 attr n i. target_node parseOptions dom_nodes attr = Some n \<and>
              getData pg0 n ''mdui.dialog'' = Some i \<longrightarrow>
              dialogClick parseOptions dom_nodes attr pg0 =
                Some (pg0\<lparr>openCalls := openCalls pg0 @ [i]\<rparr>))"
proof -
  from clicks_keep[OF store_inv_empty assms] have inv: "store_inv pg" by blast
  from clicks_opens[OF store_inv_empty assms] obtain os where
    os: "openCalls pg = os" "length os = length attrs"
    and each: "\<forall>k < length attrs. \<exists>n. target_node parseOptions dom_nodes (attrs ! k) = Some n \<and>
          dataStore pg n ''mdui.dialog'' = Some (os ! k)"
    by (auto simp: empty_page_def)
  have len: "length (openCalls pg) = length attrs" using os by simp
  have dist: "distinct (map element_of (controllers pg))"
    using inv by (rule store_inv_distinct)
  have stored: "\<forall>k < length attrs. \<exists>n.
      target_node parseOptions dom_nodes (attrs ! k) = Some n \<and>
      getData pg n ''mdui.dialog'' = Some (openCalls pg ! k) \<and>
      openCalls pg ! k < length (controllers pg) \<and>
      element_of (controllers pg ! (openCalls pg ! k)) = n"
  proof (intro allI impI)
    fix k assume "k < length attrs"
    with each obtain n where n: "target_node parseOptions dom_nodes (attrs ! k) = Some n"
      and d: "dataStore pg n ''mdui.dialog'' = Some (os ! k)" by blast
    from inv d have "os ! k < length (controllers pg) \<and> element_of (controllers pg ! (os ! k)) = n"
      unfolding store_inv_def by blast
    with n d os(1) show "\<exists>n. target_node parseOptions dom_nodes (attrs ! k) = Some n \<and>
        getData pg n ''mdui.dialog'' = Some (openCalls pg ! k) \<and>
        openCalls pg ! k < length (controllers pg) \<and>
        element_of (controllers pg ! (openCalls pg ! k)) = n"
      by (auto simp: getData_def)
  qed
  have same: "\<forall>k < length attrs. \<forall>l < length attrs.
      target_node parseOptions dom_nodes (attrs ! k) =
        target_node parseOptions dom_nodes (attrs ! l) \<longrightarrow>
      openCalls pg ! k = openCalls pg ! l"
  proof (intro allI impI)
    fix k l
    assume k: "k < length attrs" and l: "l < length attrs"
      and eq: "target_node parseOptions dom_nodes (attrs ! k) =
        target_node parseOptions dom_nodes (attrs ! l)"
    from stored k obtain n where "target_node parseOptions dom_nodes (attrs ! k) = Some n"
      "getData pg n ''mdui.dialog'' = Some (openCalls pg ! k)" by blast
    moreover from stored l obtain m where "target_node parseOptions dom_nodes (attrs ! l) = Some m"
      "getData pg m ''mdui.dialog'' = Some (openCalls pg ! l)" by blast
    ultimately show "openCalls pg ! k = openCalls pg ! l" using eq by simp
  qed
  have first: "\<forall>pg0 attr n. target_node parseOptions dom_nodes attr = Some n \<and>
      getData pg0 n ''mdui.dialog'' = None \<longrightarrow>
      dialogClick parseOptions dom_nodes attr pg0 =
        Some (pg0\<lparr>controllers := controllers pg0 @
                     [\<lparr>element_of = n,
                       options_of = filter (\<lambda>e. fst e \<noteq> ''target'') (parseOptions attr)\<rparr>],
                  dataStore := (dataStore pg0)
                     (n := (dataStore pg0 n)(''mdui.dialog'' \<mapsto> length (controllers pg0))),
                  openCalls := openCalls pg0 @ [length (controllers pg0)]\<rparr>)"
    using dialogClick_first by blast
  have again: "\<forall>pg0 attr n i. target_node parseOptions dom_nodes attr = Some n \<and>
      getData pg0 n ''mdui.dialog'' = Some i \<longrightarrow>
      dialogClick parseOptions dom_nodes attr pg0 = Some (pg0\<lparr>openCalls := openCalls pg0 @ [i]\<rparr>)"
    using dialogClick_again by blast
  from len dist stored same first again show ?thesis by blast
qed

lemma toy_clicks:
  "clicks toy_parse toy_dom [''#a'', ''#b'', ''#a''] empty_page =
     Some \<lparr>dataStore = (\<lambda>_. Map.empty)(1 := [''mdui.dialog'' \<mapsto> 0], 2 := [''mdui.dialog'' \<mapsto> 1]),
           controllers = [\<lparr>element_of = 1, options_of = [(''modal'', ''true'')]\<rparr>,
                          \<lparr>element_of = 2, options_of = [(''modal'', ''true'')]\<rparr>],
           openCalls = [0, 1, 0]\<rparr>"
  by (simp add: dialogClick_def target_node_def toy_parse_def toy_dom_def empty_page_def
      getData_def setData_def newDialog_def openDialog_def Let_def)

theorem trigger_witness:
  "clicks toy_parse toy_dom [''#a'', ''#b'', ''#a''] empty_page =
     Some \<lparr>dataStore = (\<lambda>_. Map.empty)(1 := [''mdui.dialog'' \<mapsto> 0], 2 := [''mdui.dialog'' \<mapsto> 1]),
           controllers = [\<lparr>element_of = 1, options_of = [(''modal'', ''true'')]\<rparr>,
                          \<lparr>element_of = 2, options_of = [(''modal'', ''true'')]\<rparr>],
           openCalls = [0, 1, 0]\<rparr> \<and>
   length [0::nat, 1, 0] = length [''#a'', ''#b'', ''#a''] \<and>
   distinct (map element_of [\<lparr>element_of = 1, options_of = [(''modal'', ''true'')]\<rparr>,
                             \<lparr>element_of = 2, options_of = [(''modal'', ''true'')]\<rparr>]) \<and>
   target_node toy_parse toy_dom ([''#a'', ''#b'', ''#a''] ! 0) =
     target_node toy_parse toy_dom ([''#a'', ''#b'', ''#a''] ! 2) \<and>
   [0::nat, 1, 0] ! 0 = [0, 1, 0] ! 2"
  using trigger_reuses_stored_controller[OF toy_clicks] toy_clicks
  by (simp add: target_node_def toy_parse_def toy_dom_def)

section \<open>Properties of plugin registration\<close>













end
